theory Spec2Isabelle
  imports Main "HOL-Library.Sublist"
begin

section \<open>Strings of the agent (server/rag-agent.ts)\<close>

text \<open>
  A JavaScript string is a sequence of UTF-16 code units. The model takes the code units
  below 256 (Latin-1), one \<^typ>\<open>char\<close> each, so that \<open>length\<close>, \<open>substring\<close> and
  \<open>includes\<close> count what the source counts. On these code units \<open>toLowerCase\<close> works
  unit by unit: A-Z and the capital letters U+00C0-U+00DE (without the multiplication sign
  U+00D7) move up by 32, every other unit stays.
\<close>

definition toLowerCaseChar :: "char \<Rightarrow> char" where
  "toLowerCaseChar c =
     (let n = (of_char c :: nat)
      in if (65 \<le> n \<and> n \<le> 90) \<or> (192 \<le> n \<and> n \<le> 222 \<and> n \<noteq> 215)
         then char_of (n + 32) else c)"

definition toLowerCase :: "string \<Rightarrow> string" where
  "toLowerCase s = map toLowerCaseChar s"

text \<open>\<open>s.startsWith(t)\<close> and \<open>s.includes(t)\<close> (\<open>includes\<close> is a keyword of Isabelle, hence the suffix): the scan for \<open>t\<close> at every position of \<open>s\<close>.\<close>

fun startsWith :: "string \<Rightarrow> string \<Rightarrow> bool" where
  "startsWith s [] = True"
| "startsWith [] (d # t) = False"
| "startsWith (c # s) (d # t) = (c = d \<and> startsWith s t)"

fun includesStr :: "string \<Rightarrow> string \<Rightarrow> bool" where
  "includesStr [] t = (t = [])"
| "includesStr (c # s) t = (startsWith (c # s) t \<or> includesStr s t)"

text \<open>\<open>parts.join(sep)\<close> on an array of strings.\<close>

fun join :: "string \<Rightarrow> string list \<Rightarrow> string" where
  "join sep [] = []"
| "join sep [x] = x"
| "join sep (x # y # ys) = x @ sep @ join sep (y # ys)"

text \<open>\<open>s.substring(0, n)\<close> for a non-negative \<open>n\<close>: the first \<open>n\<close> code units, all of \<open>s\<close> when it is shorter.\<close>

definition substring0 :: "string \<Rightarrow> nat \<Rightarrow> string" where
  "substring0 s n = take n s"

section \<open>The agent and its state\<close>

datatype step_type = Thought | Action | Observation | Result

record AgentStep =
  type :: step_type
  content :: string
  timestamp :: int

text \<open>
  \<open>AgentState.documents\<close> (a \<open>string[]\<close>, always empty) is \<open>state_documents\<close> here: the
  agent's own \<open>documents\<close> field, the \<open>Map\<close>, keeps the name.
\<close>

record AgentState =
  steps :: "AgentStep list"
  currentQuery :: string
  state_documents :: "string list"
  isProcessing :: bool

text \<open>
  \<open>this.documents\<close> is a \<open>Map<string, string>\<close>, iterated in insertion order: the list of
  its entries (title, content) in that order.
\<close>

type_synonym documents_map = "(string \<times> string) list"

text \<open>
  The object \<open>this\<close>. Its \<open>model\<close> field is the hosted language model, which is outside the
  program: every call of \<open>model.invoke\<close> is answered by the \<open>world\<close> below, and the
  constructor's \<open>apiKey\<close>, which only that model receives, is left out with it.
  \<open>maxIterations\<close> is initialised to 5 and never assigned.
\<close>

record ReactRagAgent =
  documents :: documents_map
  state :: AgentState

definition maxIterations :: nat where
  "maxIterations = 5"

definition new_ReactRagAgent :: "documents_map \<Rightarrow> ReactRagAgent" where
  "new_ReactRagAgent docs =
     \<lparr>documents = docs,
      state = \<lparr>steps = [], currentQuery = [], state_documents = [], isProcessing = False\<rparr>\<rparr>"

definition updateDocuments :: "documents_map \<Rightarrow> ReactRagAgent \<Rightarrow> ReactRagAgent" where
  "updateDocuments docs this = this\<lparr>documents := docs\<rparr>"

definition getState :: "ReactRagAgent \<Rightarrow> AgentState" where
  "getState this = state this"

section \<open>The Retrieval Tool\<close>

definition newline :: char where
  "newline = CHR 0x0A"

definition dquote :: char where
  "dquote = CHR 0x22"

text \<open>The template literal \<open>`[${title}]\n${content.substring(0, 500)}...`\<close>.\<close>

definition excerpt :: "string \<Rightarrow> string \<Rightarrow> string" where
  "excerpt title body = ''['' @ title @ '']'' @ [newline] @ substring0 body 500 @ ''...''"

definition delimiter :: string where
  "delimiter = [newline, newline] @ ''---'' @ [newline, newline]"

definition no_documents :: string where
  "no_documents = ''No relevant documents found.''"

text \<open>The \<open>for ... of\<close> loop of \<open>retrieveDocuments\<close>: \<open>results\<close> is the array pushed to.\<close>

fun retrieve_loop :: "string \<Rightarrow> documents_map \<Rightarrow> string list \<Rightarrow> string list" where
  "retrieve_loop queryLower [] results = results"
| "retrieve_loop queryLower ((title, body) # rest) results =
     retrieve_loop queryLower rest
       (if includesStr (toLowerCase title) queryLower \<or> includesStr (toLowerCase body) queryLower
        then results @ [excerpt title body] else results)"

definition retrieveDocuments :: "ReactRagAgent \<Rightarrow> string \<Rightarrow> string" where
  "retrieveDocuments this query =
     (let queryLower = toLowerCase query;
          results = retrieve_loop queryLower (documents this) []
      in if length results > 0 then join delimiter results else no_documents)"

section \<open>The Analysis Tool\<close>

text \<open>
  \<open>text.split(/[.!?]+/)\<close>: the pieces of the text between the maximal runs of the three
  marks; a run at the start or at the end leaves an empty piece there, and a text without
  marks (the empty text too) is one piece. \<open>cur\<close> is the piece being read.
\<close>

definition isMark :: "char \<Rightarrow> bool" where
  "isMark c = (c = CHR ''.'' \<or> c = CHR ''!'' \<or> c = CHR ''?'')"

function splitMarks :: "string \<Rightarrow> string \<Rightarrow> string list" where
  "splitMarks cur [] = [cur]"
| "splitMarks cur (c # cs) =
     (if isMark c then cur # splitMarks [] (dropWhile isMark cs)
      else splitMarks (cur @ [c]) cs)"
  by pat_completeness auto
termination
  by (relation "measure (\<lambda>(cur, s). length s)")
     (auto simp: less_Suc_eq_le length_dropWhile_le)

text \<open>\<open>query.split(" ")\<close>: the pieces between single separator units, empty pieces kept.\<close>

fun splitSep :: "char \<Rightarrow> string \<Rightarrow> string \<Rightarrow> string list" where
  "splitSep d cur [] = [cur]"
| "splitSep d cur (c # cs) =
     (if c = d then cur # splitSep d [] cs else splitSep d (cur @ [c]) cs)"

text \<open>
  The white space and line terminators of ECMAScript among the code units below 256:
  TAB, LF, VT, FF, CR, SP and NBSP. \<open>s.trim()\<close> strips them at both ends.
\<close>

definition isWhiteSpace :: "char \<Rightarrow> bool" where
  "isWhiteSpace c = ((of_char c :: nat) \<in> {9, 10, 11, 12, 13, 32, 160})"

definition trim :: "string \<Rightarrow> string" where
  "trim s = rev (dropWhile isWhiteSpace (rev (dropWhile isWhiteSpace s)))"

definition no_findings :: string where
  "no_findings = ''No specific findings related to the query.''"

definition analyzeText :: "ReactRagAgent \<Rightarrow> string \<Rightarrow> string \<Rightarrow> string" where
  "analyzeText this txt query =
     (let sentences = filter (\<lambda>s. trim s \<noteq> []) (splitMarks [] txt);
          queryWords = splitSep CHR '' '' [] query;
          relevant = filter (\<lambda>s. list_ex (\<lambda>word. includesStr (toLowerCase s) (toLowerCase word))
                                     queryWords) sentences
      in if length relevant > 0
         then ''Key findings:'' @ [newline] @ join [newline] (take 3 relevant)
         else no_findings)"

section \<open>The search phrase taken from a reply\<close>

text \<open>
  \<open>content.match(/(?:retrieve|search|find).*?(?:for|about|on)?\s*["\']?([^"\'.\n]+)/i)\<close>,
  as the backtracking matcher of ECMAScript runs it: every start position from the left, at
  each position the alternatives in their order, the lazy \<open>.*?\<close> from the shortest, the
  optional groups and \<open>\s*\<close> from the longest. Each function below is one piece of the
  pattern together with all that follows it, and returns group 1 of the first match.
\<close>

definition orElse :: "'a option \<Rightarrow> 'a option \<Rightarrow> 'a option" where
  "orElse a b = (case a of Some x \<Rightarrow> Some x | None \<Rightarrow> b)"

text \<open>A word of the pattern under the flag \<open>i\<close>: what is left of \<open>s\<close> behind it.\<close>

definition afterWord :: "string \<Rightarrow> string \<Rightarrow> string option" where
  "afterWord w s =
     (if startsWith (toLowerCase (take (length w) s)) w then Some (drop (length w) s) else None)"

fun firstAlt :: "string list \<Rightarrow> (string \<Rightarrow> 'a option) \<Rightarrow> string \<Rightarrow> 'a option" where
  "firstAlt [] k s = None"
| "firstAlt (w # ws) k s =
     orElse (case afterWord w s of Some r \<Rightarrow> k r | None \<Rightarrow> None) (firstAlt ws k s)"

definition isLineTerminator :: "char \<Rightarrow> bool" where
  "isLineTerminator c = ((of_char c :: nat) \<in> {10, 13})"

definition isQuote :: "char \<Rightarrow> bool" where
  "isQuote c = (c = dquote \<or> c = CHR 0x27)"

text \<open>The class \<open>[^"\'.\n]\<close>.\<close>

definition inGroup :: "char \<Rightarrow> bool" where
  "inGroup c = (\<not> isQuote c \<and> c \<noteq> CHR ''.'' \<and> c \<noteq> newline)"

text \<open>\<open>([^"\'.\n]+)\<close>, the end of the pattern: the longest run, of one unit at least.\<close>

definition capture :: "string \<Rightarrow> string option" where
  "capture s = (let g = takeWhile inGroup s in if g = [] then None else Some g)"

text \<open>\<open>["\']?\<close>\<close>

definition optQuote :: "string \<Rightarrow> string option" where
  "optQuote s =
     (case s of
        [] \<Rightarrow> capture []
      | c # r \<Rightarrow> if isQuote c then orElse (capture r) (capture s) else capture s)"

text \<open>\<open>\s*\<close>: \<open>k\<close> units of white space are given to it first, then one fewer, down to none.\<close>

fun backoff :: "nat \<Rightarrow> string \<Rightarrow> string option" where
  "backoff 0 s = optQuote s"
| "backoff (Suc k) s = orElse (optQuote (drop (Suc k) s)) (backoff k s)"

definition spaces :: "string \<Rightarrow> string option" where
  "spaces s = backoff (length (takeWhile isWhiteSpace s)) s"

text \<open>\<open>(?:for|about|on)?\<close>\<close>

definition optPrep :: "string \<Rightarrow> string option" where
  "optPrep s = orElse (firstAlt [''for'', ''about'', ''on''] spaces s) (spaces s)"

text \<open>\<open>.*?\<close>: no unit first, then one more at a time, never across a line terminator.\<close>

fun lazyAny :: "string \<Rightarrow> string option" where
  "lazyAny [] = optPrep []"
| "lazyAny (c # r) = orElse (optPrep (c # r)) (if isLineTerminator c then None else lazyAny r)"

definition matchHere :: "string \<Rightarrow> string option" where
  "matchHere s = firstAlt [''retrieve'', ''search'', ''find''] lazyAny s"

fun matchSearch :: "string \<Rightarrow> string option" where
  "matchSearch [] = matchHere []"
| "matchSearch (c # r) = orElse (matchHere (c # r)) (matchSearch r)"

section \<open>The Agent Loop\<close>

datatype BaseMessage = SystemMessage string | HumanMessage string

text \<open>
  What a failed \<open>model.invoke\<close> throws: an \<open>Error\<close> with its message, or any other value.
\<close>

datatype thrown = Error string | NotAnError

text \<open>
  The world outside the program. \<open>invoke w n msgs\<close> is the outcome of the call of
  \<open>model.invoke(messages)\<close> that comes after \<open>n\<close> earlier calls of the run: a thrown value
  (\<open>Inl\<close>) or the reply's \<open>content\<close>, a string as the source casts it (\<open>Inr\<close>). \<open>now w k\<close> is what \<open>Date.now()\<close> reads when the
  step log holds \<open>k\<close> entries; \<open>addStep\<close> is the only reader. No claim is made on how the
  world behaves: every theorem holds for all of them.

  Two things are taken from the world as given. Every \<open>await\<close> of \<open>model.invoke\<close> ends, with
  a reply or with a thrown value: the source sets no timeout, and a call that never ends
  is not a run that returns. And the run is on its own: what another request does to the
  same agent object while this one awaits the model (\<open>updateDocuments\<close>, a second
  \<open>processQuery\<close>) is not part of it.
\<close>

record world =
  invoke :: "nat \<Rightarrow> BaseMessage list \<Rightarrow> thrown + string"
  now :: "nat \<Rightarrow> int"

definition addStep :: "world \<Rightarrow> step_type \<Rightarrow> string \<Rightarrow> ReactRagAgent \<Rightarrow> ReactRagAgent" where
  "addStep w ty c this =
     this\<lparr>state := (state this)\<lparr>steps := steps (state this) @
        [\<lparr>type = ty, content = c, timestamp = now w (length (steps (state this)))\<rparr>]\<rparr>\<rparr>"

definition systemPrompt :: string where
  "systemPrompt =
     ''You are a helpful ReAct agent that reasons step-by-step and uses tools to retrieve and analyze documents.\<newline>\<newline>Available tools:\<newline>- retrieve_documents: Search for relevant documents based on keywords\<newline>- analyze_text: Extract key information from retrieved documents\<newline>\<newline>Follow this pattern:\<newline>1. Thought: Analyze what you need to do\<newline>2. Action: Decide to retrieve documents or analyze text\<newline>3. Observation: Process the results\<newline>4. Repeat until you have enough information\<newline>5. Final Answer: Provide a comprehensive response\<newline>\<newline>Be concise and clear in your reasoning. After gathering information, provide a final answer.''"

definition fallback :: string where
  "fallback = ''Unable to generate a complete answer. Please try again.''"

definition errorMsg :: "thrown \<Rightarrow> string" where
  "errorMsg e = (case e of Error m \<Rightarrow> m | NotAnError \<Rightarrow> ''Unknown error'')"

text \<open>
  The variables of \<open>processQuery\<close> that the loop reads and writes, with \<open>this\<close> as \<open>agent\<close>.
  \<open>calls\<close> is not in the source: it is the record of the calls of \<open>model.invoke\<close> made so
  far, each with the messages sent and the outcome, the latest last.
\<close>

record loop_vars =
  agent :: ReactRagAgent
  messages :: "BaseMessage list"
  iterations :: nat
  finalAnswer :: string
  calls :: "(BaseMessage list \<times> (thrown + string)) list"

datatype control = Break | Continue

text \<open>
  One pass through the body of the \<open>while\<close> loop. \<open>reply\<close> is the source's \<open>content\<close>,
  \<open>found\<close> its \<open>result\<close>. The flag \<open>toolExecuted\<close> is the branch taken: both tool branches
  set it and fall through to the next pass, the last branch is \<open>if (!toolExecuted)\<close>.
\<close>

definition turn :: "world \<Rightarrow> string \<Rightarrow> loop_vars \<Rightarrow> control \<times> loop_vars" where
  "turn w query v0 =
     (let v1 = v0\<lparr>iterations := iterations v0 + 1\<rparr>;
          outcome = invoke w (length (calls v1)) (messages v1);
          v2 = v1\<lparr>calls := calls v1 @ [(messages v1, outcome)]\<rparr>
      in case outcome of
           Inl e \<Rightarrow>
             (Break, v2\<lparr>agent := addStep w Thought (''Error during processing: '' @ errorMsg e)
                                     (agent v2)\<rparr>)
         | Inr reply \<Rightarrow>
             (let v3 = v2\<lparr>agent := addStep w Thought reply (agent v2)\<rparr>;
                  lower = toLowerCase reply
              in if includesStr lower ''final answer'' \<or> includesStr lower ''answer:''
                    \<or> iterations v3 \<ge> maxIterations
                 then (Break, v3\<lparr>finalAnswer := reply,
                                   agent := addStep w Result reply (agent v3)\<rparr>)
                 else if includesStr lower ''retrieve'' \<or> includesStr lower ''search''
                 then
                   (let searchQuery = (case matchSearch reply of Some g \<Rightarrow> g | None \<Rightarrow> query);
                        a1 = addStep w Action
                               (''Retrieving documents for: '' @ [dquote] @ searchQuery @ [dquote])
                               (agent v3);
                        found = retrieveDocuments a1 searchQuery;
                        a2 = addStep w Observation found a1
                    in (Continue,
                        v3\<lparr>agent := a2,
                           messages := messages v3 @
                             [HumanMessage reply,
                              HumanMessage (''Tool result from document retrieval:'' @ [newline]
                                @ found @ [newline, newline] @ ''Continue your analysis.'')]\<rparr>))
                 else if includesStr lower ''analyze'' \<or> includesStr lower ''extract''
                 then
                   (let a1 = addStep w Action ''Analyzing retrieved documents'' (agent v3);
                        found = analyzeText a1 reply query;
                        a2 = addStep w Observation found a1
                    in (Continue,
                        v3\<lparr>agent := a2,
                           messages := messages v3 @
                             [HumanMessage reply,
                              HumanMessage (''Tool result from analysis:'' @ [newline]
                                @ found @ [newline, newline]
                                @ ''Provide your final answer based on this analysis.'')]\<rparr>))
                 else (Break, v3\<lparr>finalAnswer := reply,
                                   agent := addStep w Result reply (agent v3)\<rparr>)))"

text \<open>\<open>while (iterations < this.maxIterations) { ... }\<close>\<close>

function while_loop :: "world \<Rightarrow> string \<Rightarrow> loop_vars \<Rightarrow> loop_vars" where
  "while_loop w query v =
     (if iterations v < maxIterations
      then (case turn w query v of
              (Break, v') \<Rightarrow> v'
            | (Continue, v') \<Rightarrow> while_loop w query v')
      else v)"
  by pat_completeness auto
termination
proof (relation "measure (\<lambda>(w, query, v). maxIterations - iterations v)")
  show "wf (measure (\<lambda>(w, query, v). maxIterations - iterations v))"
    by simp
next
  fix w query v x v'
  assume less: "iterations v < maxIterations" and t: "(x, v') = turn w query v"
  from t have "v' = snd (turn w query v)"
    by (metis snd_conv)
  moreover have "iterations (snd (turn w query v)) = Suc (iterations v)"
    by (simp add: turn_def Let_def split: sum.split)
  ultimately have "iterations v' = Suc (iterations v)"
    by simp
  with less
  show "((w, query, v'), (w, query, v)) \<in> measure (\<lambda>(w, query, v). maxIterations - iterations v)"
    by simp
qed

declare while_loop.simps [simp del]

text \<open>
  \<open>processQuery\<close> before the loop: \<open>this.state\<close> is replaced, the first step is logged, and
  \<open>messages\<close>, \<open>iterations\<close> and \<open>finalAnswer\<close> are initialised.
\<close>

definition entry_vars :: "world \<Rightarrow> ReactRagAgent \<Rightarrow> string \<Rightarrow> loop_vars" where
  "entry_vars w this query =
     (let a0 = this\<lparr>state := \<lparr>steps = [], currentQuery = query, state_documents = [],
                                isProcessing = True\<rparr>\<rparr>;
          a1 = addStep w Thought (''Analyzing query: '' @ [dquote] @ query @ [dquote]) a0
      in \<lparr>agent = a1, messages = [SystemMessage systemPrompt, HumanMessage query],
          iterations = 0, finalAnswer = [], calls = []\<rparr>)"

text \<open>
  \<open>processQuery\<close> up to its \<open>return\<close>: the variables as the loop leaves them, with
  \<open>isProcessing\<close> reset.
\<close>

definition processQuery_run :: "world \<Rightarrow> ReactRagAgent \<Rightarrow> string \<Rightarrow> loop_vars" where
  "processQuery_run w this query =
     (let v = while_loop w query (entry_vars w this query)
      in v\<lparr>agent := (agent v)\<lparr>state := (state (agent v))\<lparr>isProcessing := False\<rparr>\<rparr>\<rparr>)"

text \<open>
  The returned object \<open>{ result, steps }\<close>; \<open>finalAnswer || "Unable to ..."\<close> takes the
  second string when \<open>finalAnswer\<close> is empty.
\<close>

record QueryResult =
  result :: string
  result_steps :: "AgentStep list"

definition processQuery :: "world \<Rightarrow> ReactRagAgent \<Rightarrow> string \<Rightarrow> QueryResult" where
  "processQuery w this query =
     (let v = processQuery_run w this query
      in \<lparr>result = (if finalAnswer v \<noteq> [] then finalAnswer v else fallback),
          result_steps = steps (state (agent v))\<rparr>)"

text \<open>
  The same loop with a budget of passes through its body: \<open>None\<close> when the budget is
  used up before the loop has exited.
\<close>

primrec loop_within :: "nat \<Rightarrow> world \<Rightarrow> string \<Rightarrow> loop_vars \<Rightarrow> loop_vars option" where
  "loop_within 0 w query v = (if iterations v < maxIterations then None else Some v)"
| "loop_within (Suc n) w query v =
     (if iterations v < maxIterations
      then (case turn w query v of
              (Break, v') \<Rightarrow> Some v'
            | (Continue, v') \<Rightarrow> loop_within n w query v')
      else Some v)"

text \<open>The step log of the agent inside the loop variables.\<close>

abbreviation log :: "loop_vars \<Rightarrow> AgentStep list" where
  "log v \<equiv> steps (state (agent v))"

section \<open>The words of the specification as definitions\<close>

text \<open>A document matches a phrase: its title or its content contains it, letter case aside.\<close>

definition matches :: "string \<Rightarrow> string \<times> string \<Rightarrow> bool" where
  "matches phrase doc =
     (sublist (toLowerCase phrase) (toLowerCase (fst doc))
      \<or> sublist (toLowerCase phrase) (toLowerCase (snd doc)))"

text \<open>
  A text cut at every single unit that satisfies \<open>d\<close>: the pieces hold no such unit, and
  two neighbouring cuts leave an empty piece between them.
\<close>

fun pieces :: "(char \<Rightarrow> bool) \<Rightarrow> string \<Rightarrow> string list" where
  "pieces d [] = [[]]"
| "pieces d (c # cs) =
     (if d c then [] # pieces d cs
      else (case pieces d cs of [] \<Rightarrow> [[c]] | p # ps \<Rightarrow> (c # p) # ps))"

definition blank :: "string \<Rightarrow> bool" where
  "blank s = list_all isWhiteSpace s"

text \<open>The tokens of a query that white space delimits: its maximal runs free of white space.\<close>

definition ws_tokens :: "string \<Rightarrow> string list" where
  "ws_tokens q = filter (\<lambda>t. t \<noteq> []) (pieces isWhiteSpace q)"

text \<open>
  The Analysis Tool as the specification words it, over white-space-delimited tokens.
\<close>

definition claimed_analyzeText :: "string \<Rightarrow> string \<Rightarrow> string" where
  "claimed_analyzeText txt query =
     (let kept = filter (\<lambda>s. list_ex (\<lambda>tok. sublist (toLowerCase tok) (toLowerCase s))
                                 (ws_tokens query))
                   (filter (\<lambda>s. \<not> blank s) (pieces isMark txt))
      in if kept = [] then no_findings
         else ''Key findings:'' @ [newline] @ join [newline] (take 3 kept))"

section \<open>Inputs of the examples\<close>

definition doc1_agent :: ReactRagAgent where
  "doc1_agent = new_ReactRagAgent [(''doc1'', ''Python is great for readability and libraries.'')]"

definition tab :: char where
  "tab = CHR 0x09"

text \<open>Worlds whose model gives the same reply to every call.\<close>

definition replying :: "string \<Rightarrow> world" where
  "replying reply = \<lparr>invoke = (\<lambda>n msgs. Inr reply), now = (\<lambda>k. int k)\<rparr>"

text \<open>A world whose model throws at every call.\<close>

definition throwing :: "thrown \<Rightarrow> world" where
  "throwing e = \<lparr>invoke = (\<lambda>n msgs. Inl e), now = (\<lambda>k. int k)\<rparr>"

section \<open>Facts about the string operations\<close>

lemma startsWith_prefix: "startsWith s t \<longleftrightarrow> prefix t s"
  by (induction s t rule: startsWith.induct) auto

lemma includesStr_sublist: "includesStr s t \<longleftrightarrow> sublist t s"
proof (induction s)
  case Nil
  show ?case by simp
next
  case (Cons c s)
  show ?case
    by (simp add: Cons.IH startsWith_prefix sublist_Cons_right del: startsWith.simps)
qed

lemma includesStr_Nil [simp]: "includesStr s []"
  by (simp add: includesStr_sublist)

lemma toLowerCase_Nil [simp]: "toLowerCase [] = []"
  by (simp add: toLowerCase_def)

lemma join_Cons: "join sep (x # xs) = (if xs = [] then x else x @ sep @ join sep xs)"
  by (cases xs) simp_all

section \<open>The Retrieval Tool: what it returns\<close>

lemma retrieve_loop_filter:
  "retrieve_loop (toLowerCase phrase) docs results =
     results @ map (\<lambda>(title, body). excerpt title body) (filter (matches phrase) docs)"
proof (induction docs arbitrary: results)
  case Nil
  show ?case by simp
next
  case (Cons doc docs)
  obtain title body where doc: "doc = (title, body)"
    by (cases doc)
  show ?case
    by (simp add: doc Cons.IH matches_def includesStr_sublist)
qed

text \<open>
  C1. For every phrase and every document map, \<open>retrieveDocuments\<close> returns the excerpts of
  the documents whose lower-cased title or lower-cased content contains the lower-cased
  phrase as a contiguous substring, in the order of the map, joined by the delimiter
  (two line feeds, three dashes, two line feeds); an excerpt is the title in square
  brackets, a line feed, the first 500 units of the content and three dots. When no
  document matches, it returns "No relevant documents found.".
\<close>

theorem retrieveDocuments_excerpts:
  "retrieveDocuments this phrase =
     (let matching = filter (\<lambda>(title, body). sublist (toLowerCase phrase) (toLowerCase title)
                                          \<or> sublist (toLowerCase phrase) (toLowerCase body))
                       (documents this)
      in if matching = [] then ''No relevant documents found.''
         else join ''\<newline>\<newline>---\<newline>\<newline>''
                (map (\<lambda>(title, body). ''['' @ title @ '']\<newline>'' @ take 500 body @ ''...'')
                   matching))"
proof -
  have m: "(\<lambda>(title, body). sublist (toLowerCase phrase) (toLowerCase title)
             \<or> sublist (toLowerCase phrase) (toLowerCase body)) = matches phrase"
    by (auto simp: matches_def fun_eq_iff)
  have e: "(\<lambda>(title, body). ''['' @ title @ '']\<newline>'' @ take 500 body @ ''...'')
             = (\<lambda>(title, body). excerpt title body)"
    by (simp add: excerpt_def substring0_def newline_def fun_eq_iff)
  have d: "''\<newline>\<newline>---\<newline>\<newline>'' = delimiter"
    by (simp add: delimiter_def newline_def)
  show ?thesis
    unfolding m e d
    by (simp add: retrieveDocuments_def retrieve_loop_filter [where results = "[]", simplified]
        Let_def no_documents_def)
qed

lemma matches_empty_phrase: "filter (matches []) docs = docs"
  by (simp add: matches_def)

lemma excerpt_starts: "excerpt title body = CHR ''['' # title @ '']'' @ [newline] @ substring0 body 500 @ ''...''"
  by (simp add: excerpt_def)

lemma join_starts: "x = c # r \<Longrightarrow> \<exists>r'. join sep (x # xs) = c # r'"
  by (cases xs) simp_all

text \<open>
  C10. The empty phrase is a substring of every title, so it matches every document: on a
  document map that is not empty, \<open>retrieveDocuments\<close> with the empty phrase returns the
  excerpts of all the documents, joined in the order of the map, and that string is not
  the "No relevant documents found." sentinel.
\<close>

theorem retrieveDocuments_empty_phrase:
  "documents this \<noteq> [] \<Longrightarrow>
     retrieveDocuments this [] =
       join delimiter (map (\<lambda>(title, body). excerpt title body) (documents this))
     \<and> retrieveDocuments this [] \<noteq> no_documents"
proof -
  assume nonempty: "documents this \<noteq> []"
  have loop: "retrieve_loop [] (documents this) [] =
                map (\<lambda>(title, body). excerpt title body) (documents this)"
    using retrieve_loop_filter [of "[]" "documents this" "[]"]
    by (simp add: matches_empty_phrase)
  have all: "retrieveDocuments this [] =
               join delimiter (map (\<lambda>(title, body). excerpt title body) (documents this))"
    using nonempty by (simp add: retrieveDocuments_def loop)
  obtain title body rest where docs: "documents this = (title, body) # rest"
    using nonempty by (cases "documents this") auto
  obtain r where "retrieveDocuments this [] = CHR ''['' # r"
    using join_starts [OF excerpt_starts, of delimiter title body]
    by (auto simp: all docs)
  then have "retrieveDocuments this [] \<noteq> no_documents"
    by (simp add: no_documents_def)
  with all show ?thesis
    by simp
qed

theorem retrieveDocuments_empty_phrase_witness:
  "documents doc1_agent \<noteq> []
   \<and> retrieveDocuments doc1_agent [] =
       join delimiter (map (\<lambda>(title, body). excerpt title body) (documents doc1_agent))
   \<and> retrieveDocuments doc1_agent [] \<noteq> no_documents"
proof -
  have nonempty: "documents doc1_agent \<noteq> []"
    by (simp add: doc1_agent_def new_ReactRagAgent_def)
  show ?thesis
    by (rule conjI [OF nonempty retrieveDocuments_empty_phrase [OF nonempty]])
qed

text \<open>
  C6, as stated, fails: the lower-cased phrase "tell me about python" is a substring
  neither of "doc1" nor of the lower-cased content, so the document does not match and
  the returned string does not contain "[doc1]".
\<close>

theorem doc1_whole_question_counterexample:
  "\<not> sublist ''[doc1]'' (retrieveDocuments doc1_agent ''Tell me about Python'')"
proof -
  have "retrieveDocuments doc1_agent ''Tell me about Python'' = ''No relevant documents found.''"
    by code_simp
  then show ?thesis
    by (simp add: includesStr_sublist [symmetric])
qed

text \<open>
  C6, amended. With the document map of the example, the phrase "Tell me about Python"
  returns the sentinel, and the phrase "Python", which the content contains, returns
  "[doc1]", a line feed, the content (46 units, so all of it lies within the first 500)
  and three dots.
\<close>

theorem doc1_retrieval_example:
  "retrieveDocuments doc1_agent ''Tell me about Python'' = ''No relevant documents found.''
   \<and> retrieveDocuments doc1_agent ''Python'' =
       ''[doc1]\<newline>Python is great for readability and libraries....''"
  by code_simp

section \<open>The Analysis Tool: what it returns\<close>

lemma pieces_nonempty: "pieces d s \<noteq> []"
  by (induction s) (auto split: list.split)

lemma pieces_Cons_other:
  "\<not> d c \<Longrightarrow> pieces d (c # cs) = (c # hd (pieces d cs)) # tl (pieces d cs)"
  using pieces_nonempty [of d cs] by (cases "pieces d cs") simp_all

text \<open>The pieces hold no cutting unit, and gluing them with the unit gives the text back.\<close>

lemma pieces_free: "p \<in> set (pieces d s) \<Longrightarrow> c \<in> set p \<Longrightarrow> \<not> d c"
proof (induction s arbitrary: p)
  case Nil
  then show ?case by simp
next
  case (Cons x xs)
  show ?case
  proof (cases "d x")
    case True
    with Cons show ?thesis by auto
  next
    case False
    have "p = x # hd (pieces d xs) \<or> p \<in> set (tl (pieces d xs))"
      using Cons.prems(1) False by (simp add: pieces_Cons_other del: pieces.simps)
    then show ?thesis
    proof
      assume "p = x # hd (pieces d xs)"
      with Cons.prems(2) have "c = x \<or> c \<in> set (hd (pieces d xs))"
        by simp
      with False Cons.IH [of "hd (pieces d xs)"] pieces_nonempty [of d xs] show ?thesis
        by auto
    next
      assume "p \<in> set (tl (pieces d xs))"
      then have "p \<in> set (pieces d xs)"
        by (rule list.set_sel(2) [OF pieces_nonempty])
      with Cons show ?thesis by blast
    qed
  qed
qed

lemma join_pieces: "join [d] (pieces (\<lambda>c. c = d) s) = s"
proof (induction s)
  case Nil
  show ?case by simp
next
  case (Cons x xs)
  obtain p ps where ps: "pieces (\<lambda>c. c = d) xs = p # ps"
    using pieces_nonempty [of "\<lambda>c. c = d" xs] by (cases "pieces (\<lambda>c. c = d) xs") auto
  with Cons.IH show ?case
    by (auto simp: join_Cons)
qed

text \<open>\<open>query.split(" ")\<close> cuts at every single space.\<close>

lemma splitSep_pieces_acc:
  "splitSep d cur s = (cur @ hd (pieces (\<lambda>c. c = d) s)) # tl (pieces (\<lambda>c. c = d) s)"
proof (induction s arbitrary: cur)
  case Nil
  show ?case by simp
next
  case (Cons c cs)
  show ?case
  proof (cases "c = d")
    case True
    then show ?thesis
      using pieces_nonempty [of "\<lambda>c. c = d" cs] by (simp add: Cons.IH)
  next
    case False
    then show ?thesis
      by (simp add: Cons.IH pieces_Cons_other del: pieces.simps)
  qed
qed

lemma splitSep_pieces: "splitSep d [] s = pieces (\<lambda>c. c = d) s"
  using pieces_nonempty [of "\<lambda>c. c = d" s] by (simp add: splitSep_pieces_acc)

text \<open>
  \<open>text.split(/[.!?]+/)\<close> cuts at the runs of marks, not at every mark, but the pieces that
  the two ways of cutting do not share are empty, and the filter on \<open>s.trim()\<close> drops them.
\<close>

lemma blank_Nil [simp]: "blank []"
  by (simp add: blank_def)

lemma pieces_skip_marks:
  "filter (\<lambda>p. \<not> blank p) (pieces d (dropWhile d cs)) = filter (\<lambda>p. \<not> blank p) (pieces d cs)"
  by (induction cs) simp_all

lemma splitMarks_pieces_acc:
  "filter (\<lambda>p. \<not> blank p) (splitMarks cur s) =
     filter (\<lambda>p. \<not> blank p) ((cur @ hd (pieces isMark s)) # tl (pieces isMark s))"
proof (induction cur s rule: splitMarks.induct)
  case (1 cur)
  show ?case by simp
next
  case (2 cur c cs)
  show ?case
  proof (cases "isMark c")
    case True
    have "filter (\<lambda>p. \<not> blank p) (splitMarks [] (dropWhile isMark cs))
            = filter (\<lambda>p. \<not> blank p) (pieces isMark (dropWhile isMark cs))"
      using "2.IH"(1) [OF True] pieces_nonempty [of isMark "dropWhile isMark cs"] by simp
    with True show ?thesis
      by (simp add: pieces_skip_marks)
  next
    case False
    then show ?thesis
      using "2.IH"(2) by (simp add: pieces_Cons_other del: pieces.simps)
  qed
qed

lemma splitMarks_pieces:
  "filter (\<lambda>p. \<not> blank p) (splitMarks [] s) = filter (\<lambda>p. \<not> blank p) (pieces isMark s)"
  using pieces_nonempty [of isMark s] by (simp add: splitMarks_pieces_acc)

lemma all_dropWhile: "(\<forall>x\<in>set (dropWhile P s). P x) \<longleftrightarrow> (\<forall>x\<in>set s. P x)"
  by (induction s) auto

lemma trim_blank: "trim s \<noteq> [] \<longleftrightarrow> \<not> blank s"
  by (simp add: trim_def blank_def dropWhile_eq_Nil_conv all_dropWhile list_all_iff)

text \<open>
  The Analysis Tool over the pieces of the text and of the query, for every text and
  every query.
\<close>

lemma analyzeText_pieces:
  "analyzeText this txt query =
     (let sentences = filter (\<lambda>s. \<not> blank s) (pieces isMark txt);
          tokens = pieces (\<lambda>c. c = CHR '' '') query;
          kept = filter (\<lambda>s. \<exists>tok\<in>set tokens. sublist (toLowerCase tok) (toLowerCase s))
                   sentences
      in if kept = [] then ''No specific findings related to the query.''
         else ''Key findings:\<newline>'' @ join ''\<newline>'' (take 3 kept))"
  by (simp add: analyzeText_def Let_def trim_blank splitMarks_pieces splitSep_pieces
      includesStr_sublist list_ex_iff no_findings_def newline_def)

text \<open>
  C2, as stated, fails on the tokens. The source cuts the query with \<open>split(" ")\<close>, at
  every single space and nowhere else. In the query "cats", TAB, "dogs" white space
  delimits the token "cats", which the sentence "I like cats" contains, but the source
  sees one token with the TAB inside and keeps nothing.
\<close>

theorem analyzeText_tokens_counterexample:
  "ws_tokens (''cats'' @ [tab] @ ''dogs'') = [''cats'', ''dogs'']
   \<and> sublist (toLowerCase ''cats'') (toLowerCase ''I like cats'')
   \<and> claimed_analyzeText ''I like cats.'' (''cats'' @ [tab] @ ''dogs'')
       = ''Key findings:\<newline>I like cats''
   \<and> analyzeText doc1_agent ''I like cats.'' (''cats'' @ [tab] @ ''dogs'')
       = ''No specific findings related to the query.''"
  by code_simp

text \<open>
  C2, amended. The statement is for the queries whose pieces between single spaces are
  all non-empty: the query is not empty and has no leading, trailing or doubled space.
  The pseudo-sentences are the pieces of the text between the marks ".", "!" and "?" that
  are not blank (not made of white space only); the tokens are the pieces of the query
  between single spaces. The tool keeps the sentences whose lower-cased text contains a
  lower-cased token as a contiguous substring, in their order, and returns
  "Key findings:", a line feed and the first three kept sentences joined by line feeds,
  or "No specific findings related to the query." when it keeps none.
\<close>

theorem analyzeText_space_tokens:
  "[] \<notin> set (pieces (\<lambda>c. c = CHR '' '') query) \<Longrightarrow>
   analyzeText this txt query =
     (let sentences = filter (\<lambda>s. \<not> blank s) (pieces isMark txt);
          tokens = pieces (\<lambda>c. c = CHR '' '') query;
          kept = filter (\<lambda>s. \<exists>tok\<in>set tokens. sublist (toLowerCase tok) (toLowerCase s))
                   sentences
      in if kept = [] then ''No specific findings related to the query.''
         else ''Key findings:\<newline>'' @ join ''\<newline>'' (take 3 kept))"
  by (rule analyzeText_pieces)

theorem analyzeText_space_tokens_witness:
  "[] \<notin> set (pieces (\<lambda>c. c = CHR '' '') ''bye cats'')
   \<and> analyzeText doc1_agent ''Hello world. Bye now! Cats?'' ''bye cats''
       = ''Key findings:\<newline> Bye now\<newline> Cats''"
proof -
  have tokens: "[] \<notin> set (pieces (\<lambda>c. c = CHR '' '') ''bye cats'')"
    by code_simp
  have "analyzeText doc1_agent ''Hello world. Bye now! Cats?'' ''bye cats''
          = ''Key findings:\<newline> Bye now\<newline> Cats''"
    by (simp only: analyzeText_space_tokens [OF tokens, of doc1_agent]) code_simp
  with tokens show ?thesis
    by (rule conjI)
qed

section \<open>The Analysis Tool: the example\<close>

text \<open>
  C8. On the text "Python is fast. Python is readable. Cats are cute." and the query
  "Python readable" the Analysis Tool returns the header "Key findings:" and two lines
  under it, the first two sentences (without their full stops, the second with the space
  that follows the first full stop); the sentence about cats is not in the output.
\<close>

theorem analyzeText_example:
  "analyzeText this ''Python is fast. Python is readable. Cats are cute.'' ''Python readable''
     = ''Key findings:\<newline>Python is fast\<newline> Python is readable''
   \<and> \<not> sublist ''Cats are cute''
         (analyzeText this ''Python is fast. Python is readable. Cats are cute.''
            ''Python readable'')"
proof -
  have out: "analyzeText this ''Python is fast. Python is readable. Cats are cute.''
               ''Python readable''
             = ''Key findings:\<newline>Python is fast\<newline> Python is readable''"
    unfolding analyzeText_def by code_simp
  have "\<not> includesStr ''Key findings:\<newline>Python is fast\<newline> Python is readable''
            ''Cats are cute''"
    by code_simp
  with out show ?thesis
    by (simp add: includesStr_sublist)
qed

section \<open>The Agent Loop: one pass\<close>

lemma addStep_steps:
  "steps (state (addStep w ty c a)) =
     steps (state a) @ [\<lparr>type = ty, content = c, timestamp = now w (length (steps (state a)))\<rparr>]"
  by (simp add: addStep_def)

lemma turn_iterations: "iterations (snd (turn w query v)) = Suc (iterations v)"
  by (simp add: turn_def Let_def split: sum.split)

lemma turn_calls:
  "calls (snd (turn w query v)) = calls v @ [(messages v, invoke w (length (calls v)) (messages v))]"
  by (simp add: turn_def Let_def split: sum.split)

lemma turn_Break_steps:
  "turn w query v = (Break, v') \<Longrightarrow> length (log v') \<le> length (log v) + 2"
  by (auto simp: turn_def Let_def addStep_steps split: sum.splits if_splits)

lemma turn_Continue_steps:
  "turn w query v = (Continue, v') \<Longrightarrow>
     length (log v') = length (log v) + 3 \<and> Suc (iterations v) < maxIterations"
  by (auto simp: turn_def Let_def addStep_steps split: sum.splits if_splits)

lemma turn_thrown:
  "invoke w (length (calls v)) (messages v) = Inl e \<Longrightarrow> turn w query v = (x, v') \<Longrightarrow>
     x = Break \<and> finalAnswer v' = finalAnswer v
     \<and> log v' = log v @ [\<lparr>type = Thought, content = ''Error during processing: '' @ errorMsg e,
                            timestamp = now w (length (log v))\<rparr>]"
  by (auto simp: turn_def Let_def addStep_steps)

lemma turn_Continue_replied:
  "turn w query v = (Continue, v') \<Longrightarrow>
     (\<exists>reply. invoke w (length (calls v)) (messages v) = Inr reply)
     \<and> finalAnswer v' = finalAnswer v
     \<and> map type (log v') = map type (log v) @ [Thought, Action, Observation]"
  by (auto simp: turn_def Let_def addStep_steps split: sum.splits if_splits)

section \<open>The Agent Loop: the size of the step log\<close>

lemma while_loop_steps:
  "iterations v < maxIterations \<Longrightarrow>
     Suc (length (log (while_loop w query v)))
       \<le> length (log v) + 3 * (maxIterations - iterations v)"
proof (induction w query v rule: while_loop.induct)
  case (1 w query v)
  obtain x v' where t: "turn w query v = (x, v')"
    by (cases "turn w query v")
  have it: "iterations v' = Suc (iterations v)"
    using turn_iterations [of w query v] t by simp
  show ?case
  proof (cases x)
    case Break
    with t "1.prems" turn_Break_steps [of w query v v'] show ?thesis
      by (subst while_loop.simps) simp
  next
    case Continue
    with t have grow: "length (log v') = length (log v) + 3"
      and less: "Suc (iterations v) < maxIterations"
      using turn_Continue_steps [of w query v v'] by simp_all
    have "Suc (length (log (while_loop w query v')))
            \<le> length (log v') + 3 * (maxIterations - iterations v')"
      using "1.IH" [OF "1.prems" t [symmetric] Continue] less it by simp
    with t Continue "1.prems" grow it less show ?thesis
      by (subst while_loop.simps) simp
  qed
qed

text \<open>
  C3, as stated, fails: a pass that runs a tool logs three steps (thought, action,
  observation), not two. When the model names a tool in each of its five replies, here
  with the word "search", the first four passes log three steps each and the fifth, cut
  by the bound, logs a thought and a result: with the opening thought 15 steps, more
  than \<open>2 * maxIterations + 1 = 11\<close>.
\<close>

theorem step_log_bound_counterexample:
  "length (result_steps (processQuery (replying ''search'') (new_ReactRagAgent []) ''Hi'')) = 15
   \<and> 2 * maxIterations + 1 = 11"
  by code_simp

text \<open>
  C3, amended. For every run of \<open>processQuery\<close>, whatever the model replies or throws, the
  returned step log holds at most \<open>3 * maxIterations\<close> entries, 15 with
  \<open>maxIterations = 5\<close>: the opening thought, three entries for each pass that runs a
  tool (at most \<open>maxIterations - 1\<close> of them), and at most two for the last pass.
\<close>

theorem step_log_bound:
  "length (result_steps (processQuery w this query)) \<le> 3 * maxIterations
   \<and> 3 * maxIterations = 15"
proof -
  have "Suc (length (log (while_loop w query (entry_vars w this query))))
          \<le> length (log (entry_vars w this query)) + 3 * (maxIterations - 0)"
    using while_loop_steps [of "entry_vars w this query" w query]
    by (simp add: entry_vars_def maxIterations_def)
  then show ?thesis
    by (simp add: processQuery_def processQuery_run_def Let_def entry_vars_def addStep_steps
        maxIterations_def)
qed

section \<open>The Agent Loop: termination and the number of model calls\<close>

lemma while_loop_counts:
  "length (calls v) = iterations v \<Longrightarrow> iterations v \<le> maxIterations \<Longrightarrow>
     length (calls (while_loop w query v)) = iterations (while_loop w query v)
     \<and> iterations (while_loop w query v) \<le> maxIterations"
proof (induction w query v rule: while_loop.induct)
  case (1 w query v)
  show ?case
  proof (cases "iterations v < maxIterations")
    case False
    with "1.prems" show ?thesis
      by (subst (1 2 3) while_loop.simps) simp
  next
    case True
    obtain x v' where t: "turn w query v = (x, v')"
      by (cases "turn w query v")
    have it: "iterations v' = Suc (iterations v)"
      using turn_iterations [of w query v] t by simp
    have ca: "length (calls v') = Suc (length (calls v))"
      using turn_calls [of w query v] t by simp
    show ?thesis
    proof (cases x)
      case Break
      with t True it ca "1.prems" show ?thesis
        by (subst (1 2 3) while_loop.simps) simp
    next
      case Continue
      have "length (calls (while_loop w query v')) = iterations (while_loop w query v')
            \<and> iterations (while_loop w query v') \<le> maxIterations"
        using "1.IH" [OF True t [symmetric] Continue] it ca "1.prems" True by simp
      with t True Continue show ?thesis
        by (subst (1 2 3) while_loop.simps) simp
    qed
  qed
qed

lemma loop_within_enough:
  "maxIterations - iterations v \<le> n \<Longrightarrow> loop_within n w query v = Some (while_loop w query v)"
proof (induction n arbitrary: v)
  case 0
  then show ?case
    by (subst while_loop.simps) simp
next
  case (Suc n)
  show ?case
  proof (cases "iterations v < maxIterations")
    case False
    then show ?thesis
      by (subst while_loop.simps) simp
  next
    case True
    obtain x v' where t: "turn w query v = (x, v')"
      by (cases "turn w query v")
    have it: "iterations v' = Suc (iterations v)"
      using turn_iterations [of w query v] t by simp
    show ?thesis
    proof (cases x)
      case Break
      with t True show ?thesis
        by (subst while_loop.simps) simp
    next
      case Continue
      have "loop_within n w query v' = Some (while_loop w query v')"
        using Suc.prems it by (intro Suc.IH) simp
      with t True Continue show ?thesis
        by (subst while_loop.simps) simp
    qed
  qed
qed

text \<open>
  C4. Every run of the loop ends: \<open>while_loop\<close> is a total function, accepted with the
  measure \<open>maxIterations - iterations\<close>, and a budget of \<open>maxIterations\<close> passes is enough
  for the loop to exit, in the state from which \<open>processQuery\<close> returns, whatever the
  model replies or throws. The run makes one model call in each pass and at most
  \<open>maxIterations = 5\<close> passes.
\<close>

theorem processQuery_terminates:
  "loop_within maxIterations w query (entry_vars w this query)
     = Some (while_loop w query (entry_vars w this query))
   \<and> length (calls (processQuery_run w this query)) = iterations (processQuery_run w this query)
   \<and> iterations (processQuery_run w this query) \<le> maxIterations
   \<and> maxIterations = 5"
proof -
  have "loop_within maxIterations w query (entry_vars w this query)
          = Some (while_loop w query (entry_vars w this query))"
    by (rule loop_within_enough) simp
  moreover
  have "length (calls (processQuery_run w this query)) = iterations (processQuery_run w this query)
        \<and> iterations (processQuery_run w this query) \<le> maxIterations"
    using while_loop_counts [of "entry_vars w this query" w query]
    by (simp add: processQuery_run_def Let_def entry_vars_def)
  ultimately show ?thesis
    by (simp add: maxIterations_def)
qed

section \<open>The Agent Loop: a model call that throws\<close>

lemma while_loop_error:
  "\<forall>c\<in>set (calls v). \<exists>reply. snd c = Inr reply \<Longrightarrow> finalAnswer v = [] \<Longrightarrow>
   Result \<notin> set (map type (log v)) \<Longrightarrow>
     (\<forall>c\<in>set (calls (while_loop w query v)). \<exists>reply. snd c = Inr reply)
     \<or> (\<exists>cs msgs e. calls (while_loop w query v) = cs @ [(msgs, Inl e)]
           \<and> (\<forall>c\<in>set cs. \<exists>reply. snd c = Inr reply)
           \<and> finalAnswer (while_loop w query v) = []
           \<and> Result \<notin> set (map type (log (while_loop w query v)))
           \<and> log (while_loop w query v) \<noteq> []
           \<and> type (last (log (while_loop w query v))) = Thought
           \<and> content (last (log (while_loop w query v)))
               = ''Error during processing: '' @ errorMsg e)"
proof (induction w query v rule: while_loop.induct)
  case (1 w query v)
  show ?case
  proof (cases "iterations v < maxIterations")
    case False
    then have "while_loop w query v = v"
      by (subst while_loop.simps) simp
    with "1.prems"(1) show ?thesis
      by simp
  next
    case True
    obtain x v' where t: "turn w query v = (x, v')"
      by (cases "turn w query v")
    have ca: "calls v' = calls v @ [(messages v, invoke w (length (calls v)) (messages v))]"
      using turn_calls [of w query v] t by simp
    show ?thesis
    proof (cases "invoke w (length (calls v)) (messages v)")
      case (Inl e)
      from turn_thrown [OF Inl t]
      have x: "x = Break" and fa: "finalAnswer v' = finalAnswer v"
        and lg: "log v' = log v @ [\<lparr>type = Thought,
                   content = ''Error during processing: '' @ errorMsg e,
                   timestamp = now w (length (log v))\<rparr>]"
        by simp_all
      have wl: "while_loop w query v = v'"
        using True t x by (subst while_loop.simps) simp
      have "calls v' = calls v @ [(messages v, Inl e)]"
        using ca Inl by simp
      with "1.prems" fa lg show ?thesis
        unfolding wl by auto
    next
      case (Inr reply)
      show ?thesis
      proof (cases x)
        case Break
        have wl: "while_loop w query v = v'"
          using True t Break by (subst while_loop.simps) simp
        from "1.prems"(1) ca Inr show ?thesis
          unfolding wl by auto
      next
        case Continue
        have wl: "while_loop w query v = while_loop w query v'"
          using True t Continue by (subst while_loop.simps) simp
        from turn_Continue_replied [of w query v v'] t Continue
        have fa: "finalAnswer v' = finalAnswer v"
          and ty: "map type (log v') = map type (log v) @ [Thought, Action, Observation]"
          by simp_all
        have "\<forall>c\<in>set (calls v'). \<exists>reply. snd c = Inr reply"
          using "1.prems"(1) ca Inr by auto
        moreover have "finalAnswer v' = []"
          using fa "1.prems"(2) by simp
        moreover have "Result \<notin> set (map type (log v'))"
          using "1.prems"(3) unfolding ty by simp
        ultimately show ?thesis
          unfolding wl by (rule "1.IH" [OF True t [symmetric] Continue])
      qed
    qed
  qed
qed

text \<open>
  C5. When a model call of the run throws, that call is the last one of the run (the loop
  ends at once); the last step of the returned log is a thought whose content is
  "Error during processing: " followed by the error's message ("Unknown error" when the
  thrown value is not an \<open>Error\<close>); the log holds no result step; and the returned
  result is the fallback string "Unable to generate a complete answer. Please try
  again.", not a reply of the model.
\<close>

theorem model_error_aborts:
  "(msgs, Inl e) \<in> set (calls (processQuery_run w this query)) \<Longrightarrow>
     last (calls (processQuery_run w this query)) = (msgs, Inl e)
     \<and> type (last (result_steps (processQuery w this query))) = Thought
     \<and> content (last (result_steps (processQuery w this query)))
         = ''Error during processing: '' @ errorMsg e
     \<and> Result \<notin> set (map type (result_steps (processQuery w this query)))
     \<and> result (processQuery w this query)
         = ''Unable to generate a complete answer. Please try again.''"
proof -
  assume thrown: "(msgs, Inl e) \<in> set (calls (processQuery_run w this query))"
  let ?v = "while_loop w query (entry_vars w this query)"
  have calls_run: "calls (processQuery_run w this query) = calls ?v"
    by (simp add: processQuery_run_def Let_def)
  have steps_run: "result_steps (processQuery w this query) = log ?v"
    by (simp add: processQuery_def processQuery_run_def Let_def)
  have res: "result (processQuery w this query)
               = (if finalAnswer ?v \<noteq> [] then finalAnswer ?v else fallback)"
    by (simp add: processQuery_def processQuery_run_def Let_def)
  have "(\<forall>c\<in>set (calls ?v). \<exists>reply. snd c = Inr reply)
     \<or> (\<exists>cs msgs e. calls ?v = cs @ [(msgs, Inl e)]
           \<and> (\<forall>c\<in>set cs. \<exists>reply. snd c = Inr reply)
           \<and> finalAnswer ?v = []
           \<and> Result \<notin> set (map type (log ?v))
           \<and> log ?v \<noteq> []
           \<and> type (last (log ?v)) = Thought
           \<and> content (last (log ?v)) = ''Error during processing: '' @ errorMsg e)"
    by (rule while_loop_error) (simp_all add: entry_vars_def Let_def addStep_steps)
  moreover have "\<not> (\<forall>c\<in>set (calls ?v). \<exists>reply. snd c = Inr reply)"
    using thrown unfolding calls_run by force
  ultimately obtain cs msgs' e' where c: "calls ?v = cs @ [(msgs', Inl e')]"
    and early: "\<forall>c\<in>set cs. \<exists>reply. snd c = Inr reply"
    and fa: "finalAnswer ?v = []"
    and nores: "Result \<notin> set (map type (log ?v))"
    and ty: "type (last (log ?v)) = Thought"
    and co: "content (last (log ?v)) = ''Error during processing: '' @ errorMsg e'"
    by blast
  have "(msgs, Inl e) \<in> set cs \<or> (msgs, Inl e) = (msgs', Inl e')"
    using thrown unfolding calls_run c by auto
  with early have same: "msgs' = msgs \<and> e' = e"
    by force
  show ?thesis
    unfolding calls_run steps_run res
    using c fa nores ty co same by (simp add: fallback_def)
qed

theorem model_error_aborts_witness:
  "([SystemMessage systemPrompt, HumanMessage ''Hi''], Inl (Error ''quota exceeded''))
     \<in> set (calls (processQuery_run (throwing (Error ''quota exceeded'')) doc1_agent ''Hi''))
   \<and> last (calls (processQuery_run (throwing (Error ''quota exceeded'')) doc1_agent ''Hi''))
       = ([SystemMessage systemPrompt, HumanMessage ''Hi''], Inl (Error ''quota exceeded''))
   \<and> type (last (result_steps (processQuery (throwing (Error ''quota exceeded'')) doc1_agent ''Hi'')))
       = Thought
   \<and> content (last (result_steps (processQuery (throwing (Error ''quota exceeded'')) doc1_agent ''Hi'')))
       = ''Error during processing: quota exceeded''
   \<and> Result \<notin> set (map type
         (result_steps (processQuery (throwing (Error ''quota exceeded'')) doc1_agent ''Hi'')))
   \<and> result (processQuery (throwing (Error ''quota exceeded'')) doc1_agent ''Hi'')
       = ''Unable to generate a complete answer. Please try again.''"
proof -
  have thrown: "([SystemMessage systemPrompt, HumanMessage ''Hi''], Inl (Error ''quota exceeded''))
     \<in> set (calls (processQuery_run (throwing (Error ''quota exceeded'')) doc1_agent ''Hi''))"
    by code_simp
  show ?thesis
    using thrown model_error_aborts [OF thrown] by (simp add: errorMsg_def)
qed

section \<open>The Agent Loop: a first reply without keywords\<close>

lemma first_reply_final:
  assumes reply: "invoke w 0 [SystemMessage systemPrompt, HumanMessage query] = Inr reply"
    and "\<not> sublist ''final answer'' (toLowerCase reply)"
    and "\<not> sublist ''answer:'' (toLowerCase reply)"
    and "\<not> sublist ''retrieve'' (toLowerCase reply)"
    and "\<not> sublist ''search'' (toLowerCase reply)"
    and "\<not> sublist ''analyze'' (toLowerCase reply)"
    and "\<not> sublist ''extract'' (toLowerCase reply)"
  shows "calls (processQuery_run w this query)
           = [([SystemMessage systemPrompt, HumanMessage query], Inr reply)]
     \<and> iterations (processQuery_run w this query) = 1
     \<and> result (processQuery w this query) = (if reply = [] then fallback else reply)
     \<and> result_steps (processQuery w this query)
         = [\<lparr>type = Thought, content = ''Analyzing query: '' @ [dquote] @ query @ [dquote],
              timestamp = now w 0\<rparr>,
            \<lparr>type = Thought, content = reply, timestamp = now w 1\<rparr>,
            \<lparr>type = Result, content = reply, timestamp = now w 2\<rparr>]"
proof -
  let ?v0 = "entry_vars w this query"
  have inv: "invoke w (length (calls ?v0)) (messages ?v0) = Inr reply"
    using reply by (simp add: entry_vars_def Let_def)
  have t: "turn w query ?v0 =
             (Break, ?v0\<lparr>iterations := 1,
                         calls := [([SystemMessage systemPrompt, HumanMessage query], Inr reply)],
                         finalAnswer := reply,
                         agent := addStep w Result reply (addStep w Thought reply (agent ?v0))\<rparr>)"
    using assms(2-) inv
    by (simp add: turn_def Let_def includesStr_sublist maxIterations_def)
       (simp add: entry_vars_def Let_def)
  have wl: "while_loop w query ?v0 =
              ?v0\<lparr>iterations := 1,
                  calls := [([SystemMessage systemPrompt, HumanMessage query], Inr reply)],
                  finalAnswer := reply,
                  agent := addStep w Result reply (addStep w Thought reply (agent ?v0))\<rparr>"
    by (subst while_loop.simps) (simp add: t, simp add: entry_vars_def Let_def maxIterations_def)
  show ?thesis
    by (simp add: processQuery_def processQuery_run_def Let_def wl addStep_steps)
       (simp add: entry_vars_def Let_def addStep_steps numeral_2_eq_2)
qed

text \<open>
  C7, as stated, fails on the returned result: when the first reply is the empty string
  (which holds no keyword and no marker), the run ends after one pass and the reply is
  logged as the result step, but \<open>finalAnswer || "Unable to ..."\<close> returns the fallback
  string, which is not the reply.
\<close>

theorem empty_reply_counterexample:
  "invoke (replying []) 0 [SystemMessage systemPrompt, HumanMessage ''Hi''] = Inr []
   \<and> result (processQuery (replying []) doc1_agent ''Hi'')
       = ''Unable to generate a complete answer. Please try again.''
   \<and> result (processQuery (replying []) doc1_agent ''Hi'') \<noteq> []"
proof -
  have first: "invoke (replying []) 0 [SystemMessage systemPrompt, HumanMessage ''Hi''] = Inr []"
    by (simp add: replying_def)
  have "result (processQuery (replying []) doc1_agent ''Hi'') = fallback"
    using first_reply_final [OF first, of doc1_agent] by simp
  with first show ?thesis
    by (simp add: fallback_def)
qed

text \<open>
  C7, amended. When the first reply of the model holds, letter case aside, none of
  "final answer", "answer:", "retrieve", "search", "analyze" and "extract", the run makes
  exactly one pass and one model call; the returned log is the opening thought, the
  reply as a thought and the reply as the result step; and the returned result is the
  reply when the reply is not empty, the fallback string when it is empty.
\<close>

theorem first_reply_ends_run:
  "invoke w 0 [SystemMessage systemPrompt, HumanMessage query] = Inr reply \<Longrightarrow>
   \<not> sublist ''final answer'' (toLowerCase reply) \<Longrightarrow>
   \<not> sublist ''answer:'' (toLowerCase reply) \<Longrightarrow>
   \<not> sublist ''retrieve'' (toLowerCase reply) \<Longrightarrow>
   \<not> sublist ''search'' (toLowerCase reply) \<Longrightarrow>
   \<not> sublist ''analyze'' (toLowerCase reply) \<Longrightarrow>
   \<not> sublist ''extract'' (toLowerCase reply) \<Longrightarrow>
     calls (processQuery_run w this query)
       = [([SystemMessage systemPrompt, HumanMessage query], Inr reply)]
     \<and> iterations (processQuery_run w this query) = 1
     \<and> result (processQuery w this query) = (if reply = [] then fallback else reply)
     \<and> result_steps (processQuery w this query)
         = [\<lparr>type = Thought, content = ''Analyzing query: '' @ [dquote] @ query @ [dquote],
              timestamp = now w 0\<rparr>,
            \<lparr>type = Thought, content = reply, timestamp = now w 1\<rparr>,
            \<lparr>type = Result, content = reply, timestamp = now w 2\<rparr>]"
  by (rule first_reply_final)

theorem first_reply_ends_run_witness:
  "invoke (replying ''Hello'') 0 [SystemMessage systemPrompt, HumanMessage ''Hi''] = Inr ''Hello''
   \<and> \<not> sublist ''final answer'' (toLowerCase ''Hello'')
   \<and> \<not> sublist ''answer:'' (toLowerCase ''Hello'')
   \<and> \<not> sublist ''retrieve'' (toLowerCase ''Hello'')
   \<and> \<not> sublist ''search'' (toLowerCase ''Hello'')
   \<and> \<not> sublist ''analyze'' (toLowerCase ''Hello'')
   \<and> \<not> sublist ''extract'' (toLowerCase ''Hello'')
   \<and> calls (processQuery_run (replying ''Hello'') doc1_agent ''Hi'')
       = [([SystemMessage systemPrompt, HumanMessage ''Hi''], Inr ''Hello'')]
   \<and> iterations (processQuery_run (replying ''Hello'') doc1_agent ''Hi'') = 1
   \<and> result (processQuery (replying ''Hello'') doc1_agent ''Hi'') = ''Hello''
   \<and> map type (result_steps (processQuery (replying ''Hello'') doc1_agent ''Hi''))
       = [Thought, Thought, Result]"
proof -
  have first: "invoke (replying ''Hello'') 0 [SystemMessage systemPrompt, HumanMessage ''Hi'']
                 = Inr ''Hello''"
    by (simp add: replying_def)
  have k1: "\<not> sublist ''final answer'' (toLowerCase ''Hello'')" by code_simp
  have k2: "\<not> sublist ''answer:'' (toLowerCase ''Hello'')" by code_simp
  have k3: "\<not> sublist ''retrieve'' (toLowerCase ''Hello'')" by code_simp
  have k4: "\<not> sublist ''search'' (toLowerCase ''Hello'')" by code_simp
  have k5: "\<not> sublist ''analyze'' (toLowerCase ''Hello'')" by code_simp
  have k6: "\<not> sublist ''extract'' (toLowerCase ''Hello'')" by code_simp
  show ?thesis
    using first k1 k2 k3 k4 k5 k6
      first_reply_ends_run [OF first k1 k2 k3 k4 k5 k6, of doc1_agent]
    by simp
qed

end
